theory Spec2Isabelle
  imports Main "HOL-Library.Multiset"
begin

section \<open>Wiring of the PURPLE stepping switches\<close>

text \<open>
  The module \<^verbatim>\<open>purple/wiring.py\<close> holds four literal two-dimensional arrays, one per
  stepping switch. A row belongs to a wiper position, a column to an input contact, and
  the entry is the output contact. The entries are Python integers, hence \<open>int\<close>.
\<close>

subsection \<open>The literal tables\<close>

definition SIXES :: "int list list" where
  "SIXES = [
     [1, 0, 2, 4, 3, 5],
     [5, 2, 4, 1, 0, 3],
     [0, 4, 3, 5, 1, 2],
     [3, 2, 1, 0, 5, 4],
     [2, 5, 0, 3, 4, 1],
     [1, 0, 5, 4, 2, 3],
     [5, 4, 3, 1, 0, 2],
     [2, 5, 0, 3, 4, 1],
     [4, 3, 1, 5, 2, 0],
     [3, 4, 2, 1, 0, 5],
     [1, 0, 3, 4, 5, 2],
     [4, 3, 5, 2, 1, 0],
     [2, 0, 1, 5, 3, 4],
     [3, 1, 4, 0, 2, 5],
     [0, 5, 1, 2, 4, 3],
     [4, 3, 2, 5, 0, 1],
     [5, 1, 4, 2, 3, 0],
     [1, 2, 3, 0, 4, 5],
     [0, 1, 2, 4, 5, 3],
     [2, 0, 5, 3, 1, 4],
     [5, 4, 0, 1, 3, 2],
     [0, 2, 5, 3, 1, 4],
     [5, 3, 4, 0, 2, 1],
     [3, 5, 0, 1, 4, 2],
     [4, 1, 3, 2, 5, 0]
  ]"

definition TWENTIES_I :: "int list list" where
  "TWENTIES_I = [
     [5, 18, 13, 0, 9, 3, 1, 6, 12, 8, 7, 15, 2, 17, 14, 10, 4, 11, 19, 16],
     [3, 4, 15, 16, 13, 0, 19, 14, 2, 7, 17, 10, 11, 12, 9, 18, 1, 5, 8, 6],
     [16, 0, 12, 5, 14, 10, 18, 11, 15, 17, 9, 2, 6, 13, 7, 19, 3, 8, 1, 4],
     [2, 13, 19, 3, 5, 15, 7, 18, 1, 11, 16, 8, 4, 0, 10, 9, 6, 12, 14, 17],
     [18, 5, 7, 19, 12, 4, 17, 3, 9, 2, 15, 14, 13, 11, 6, 1, 16, 10, 0, 8],
     [1, 10, 8, 13, 6, 18, 5, 2, 17, 12, 11, 7, 9, 14, 15, 16, 19, 3, 4, 0],
     [15, 6, 5, 17, 8, 9, 12, 0, 16, 1, 4, 3, 10, 18, 19, 13, 7, 14, 2, 11],
     [0, 19, 6, 15, 11, 13, 4, 17, 14, 9, 12, 5, 7, 2, 3, 8, 10, 16, 18, 1],
     [16, 8, 10, 7, 19, 17, 6, 13, 0, 15, 14, 4, 18, 1, 5, 11, 3, 9, 12, 2],
     [11, 7, 16, 8, 2, 19, 3, 9, 13, 4, 6, 17, 1, 15, 12, 5, 0, 18, 14, 10],
     [19, 0, 15, 10, 1, 16, 8, 3, 7, 14, 9, 12, 2, 17, 13, 4, 5, 6, 11, 18],
     [4, 3, 14, 1, 12, 18, 5, 15, 11, 13, 7, 6, 16, 9, 17, 2, 8, 0, 10, 19],
     [14, 16, 9, 18, 15, 1, 10, 7, 8, 6, 2, 13, 17, 12, 11, 0, 4, 19, 5, 3],
     [10, 11, 6, 2, 7, 14, 15, 5, 3, 19, 1, 4, 0, 8, 18, 17, 9, 13, 16, 12],
     [11, 15, 1, 6, 3, 7, 14, 18, 4, 0, 10, 8, 19, 16, 5, 13, 12, 2, 17, 9],
     [7, 14, 17, 0, 11, 10, 16, 13, 19, 15, 12, 18, 8, 6, 2, 3, 1, 4, 9, 5],
     [6, 2, 4, 17, 16, 12, 18, 19, 13, 10, 8, 9, 1, 5, 0, 14, 11, 15, 3, 7],
     [9, 12, 3, 13, 17, 2, 1, 16, 10, 18, 19, 0, 5, 11, 8, 6, 14, 7, 4, 15],
     [12, 6, 8, 11, 19, 15, 13, 9, 18, 5, 0, 1, 10, 3, 4, 2, 17, 16, 7, 14],
     [0, 1, 2, 3, 4, 5, 6, 7, 8, 9, 10, 11, 12, 13, 14, 15, 16, 17, 18, 19],
     [8, 19, 11, 4, 9, 16, 0, 12, 6, 14, 3, 2, 15, 7, 17, 10, 18, 1, 13, 5],
     [17, 14, 1, 12, 0, 6, 9, 4, 18, 16, 5, 19, 8, 10, 11, 7, 2, 3, 15, 13],
     [15, 17, 18, 9, 10, 19, 4, 8, 0, 3, 11, 12, 6, 5, 16, 1, 13, 14, 2, 7],
     [4, 7, 0, 14, 18, 8, 11, 1, 5, 2, 13, 16, 3, 19, 15, 12, 17, 9, 6, 10],
     [13, 9, 3, 7, 8, 11, 2, 10, 16, 19, 18, 5, 14, 4, 1, 17, 15, 6, 0, 12]
  ]"

definition TWENTIES_II :: "int list list" where
  "TWENTIES_II = [
     [14, 8, 0, 4, 16, 18, 2, 1, 9, 7, 10, 17, 11, 15, 5, 12, 19, 3, 13, 6],
     [11, 5, 14, 1, 3, 8, 7, 15, 18, 16, 4, 10, 19, 6, 9, 17, 0, 13, 12, 2],
     [3, 17, 4, 7, 15, 0, 11, 14, 19, 13, 12, 16, 10, 1, 6, 8, 5, 2, 9, 18],
     [5, 10, 1, 19, 13, 6, 17, 11, 14, 2, 7, 4, 9, 0, 16, 18, 8, 15, 3, 12],
     [6, 1, 12, 2, 8, 3, 16, 13, 0, 11, 17, 19, 5, 10, 15, 14, 4, 7, 18, 9],
     [4, 16, 13, 6, 9, 8, 18, 19, 7, 12, 0, 1, 15, 2, 3, 11, 10, 17, 5, 14],
     [7, 3, 2, 10, 18, 12, 1, 8, 11, 15, 9, 16, 13, 14, 19, 5, 17, 0, 6, 4],
     [19, 0, 15, 9, 14, 7, 13, 10, 17, 4, 2, 6, 12, 16, 18, 3, 1, 8, 11, 5],
     [8, 7, 6, 14, 4, 1, 3, 12, 16, 0, 10, 5, 18, 17, 13, 9, 2, 19, 15, 11],
     [9, 11, 10, 17, 7, 15, 19, 16, 4, 5, 8, 2, 3, 18, 12, 6, 0, 13, 14, 1],
     [10, 6, 13, 3, 17, 19, 5, 0, 12, 18, 11, 14, 4, 8, 15, 1, 16, 9, 7, 2],
     [1, 2, 8, 9, 12, 13, 14, 15, 6, 10, 19, 11, 17, 5, 0, 4, 7, 16, 18, 3],
     [15, 9, 14, 0, 16, 2, 12, 8, 3, 6, 5, 7, 1, 13, 4, 10, 11, 18, 17, 19],
     [18, 15, 17, 11, 2, 12, 8, 9, 5, 1, 16, 13, 10, 3, 6, 19, 14, 4, 0, 7],
     [17, 13, 11, 18, 0, 6, 9, 5, 10, 14, 4, 8, 7, 19, 16, 3, 2, 12, 1, 15],
     [19, 2, 18, 1, 3, 4, 10, 13, 8, 9, 17, 15, 14, 11, 7, 6, 12, 5, 16, 0],
     [2, 5, 3, 13, 1, 11, 15, 4, 17, 19, 6, 18, 0, 14, 8, 7, 9, 10, 12, 16],
     [4, 14, 19, 8, 9, 16, 0, 18, 12, 11, 3, 1, 6, 5, 10, 13, 15, 7, 2, 17],
     [13, 19, 12, 16, 4, 17, 7, 3, 1, 14, 15, 0, 8, 18, 2, 5, 6, 9, 11, 10],
     [7, 10, 0, 5, 18, 13, 4, 17, 16, 2, 9, 12, 11, 19, 14, 15, 3, 1, 6, 8],
     [16, 18, 5, 0, 11, 14, 19, 6, 15, 8, 2, 10, 12, 9, 1, 17, 7, 3, 4, 13],
     [0, 4, 11, 19, 5, 10, 13, 7, 8, 6, 18, 3, 2, 12, 9, 16, 17, 15, 14, 1],
     [15, 7, 9, 12, 10, 5, 18, 4, 2, 3, 14, 19, 16, 1, 17, 0, 13, 6, 8, 11],
     [18, 12, 7, 15, 19, 9, 6, 0, 1, 17, 13, 5, 8, 4, 11, 2, 16, 14, 10, 3],
     [12, 0, 16, 14, 6, 3, 15, 2, 13, 4, 1, 9, 17, 7, 10, 8, 18, 11, 19, 5]
  ]"

definition TWENTIES_III :: "int list list" where
  "TWENTIES_III = [
     [6, 18, 10, 2, 19, 0, 9, 5, 15, 11, 16, 12, 7, 8, 3, 17, 4, 13, 14, 1],
     [14, 16, 13, 1, 11, 12, 7, 2, 0, 18, 8, 3, 9, 6, 10, 19, 15, 5, 17, 4],
     [1, 10, 19, 11, 0, 18, 3, 9, 8, 13, 5, 14, 12, 2, 6, 15, 17, 7, 4, 16],
     [15, 2, 11, 8, 3, 19, 5, 18, 17, 1, 4, 7, 13, 10, 9, 0, 14, 16, 12, 6],
     [11, 17, 15, 3, 8, 2, 14, 12, 5, 19, 7, 1, 6, 9, 4, 18, 13, 0, 16, 10],
     [12, 8, 4, 5, 7, 6, 11, 16, 13, 17, 19, 9, 1, 18, 10, 14, 3, 2, 0, 15],
     [3, 6, 1, 14, 16, 9, 18, 4, 7, 15, 0, 11, 2, 12, 5, 13, 19, 8, 10, 17],
     [8, 5, 3, 9, 17, 15, 7, 13, 4, 11, 16, 0, 19, 14, 12, 18, 1, 10, 6, 2],
     [4, 13, 17, 16, 12, 14, 10, 11, 6, 7, 2, 5, 0, 1, 19, 3, 8, 9, 15, 18],
     [10, 15, 8, 17, 2, 11, 4, 14, 9, 0, 13, 16, 1, 3, 18, 5, 7, 6, 12, 19],
     [18, 7, 2, 14, 13, 4, 0, 10, 1, 9, 11, 15, 17, 19, 16, 6, 12, 3, 8, 5],
     [0, 11, 16, 12, 8, 6, 13, 1, 14, 3, 4, 10, 5, 15, 2, 7, 17, 18, 19, 9],
     [2, 3, 9, 11, 0, 17, 1, 7, 13, 12, 18, 6, 15, 5, 14, 8, 16, 19, 4, 10],
     [8, 10, 5, 4, 9, 3, 16, 18, 12, 14, 6, 1, 11, 17, 13, 19, 0, 15, 7, 2],
     [7, 12, 13, 15, 18, 11, 19, 6, 9, 2, 14, 8, 3, 16, 0, 10, 4, 1, 5, 17],
     [17, 15, 14, 3, 1, 16, 12, 11, 5, 10, 19, 18, 13, 4, 8, 0, 7, 6, 2, 9],
     [13, 0, 6, 19, 5, 12, 15, 17, 11, 8, 3, 16, 4, 10, 1, 2, 9, 14, 18, 7],
     [16, 18, 0, 10, 6, 1, 17, 3, 2, 7, 9, 4, 14, 11, 15, 8, 5, 12, 19, 13],
     [9, 14, 1, 13, 10, 5, 6, 0, 15, 19, 12, 2, 8, 7, 17, 16, 18, 4, 11, 3],
     [19, 8, 7, 5, 11, 10, 1, 4, 3, 6, 15, 13, 16, 2, 14, 9, 12, 18, 17, 0],
     [10, 19, 12, 7, 15, 9, 17, 13, 18, 5, 14, 3, 0, 16, 6, 4, 2, 8, 1, 11],
     [15, 4, 9, 18, 3, 17, 14, 16, 0, 2, 1, 19, 10, 5, 7, 12, 6, 11, 13, 8],
     [5, 9, 18, 15, 4, 8, 0, 19, 16, 3, 10, 17, 6, 13, 12, 1, 11, 7, 2, 14],
     [7, 6, 4, 0, 14, 13, 8, 15, 10, 16, 17, 5, 18, 19, 2, 11, 3, 1, 9, 12],
     [12, 1, 16, 6, 13, 7, 2, 8, 19, 4, 15, 9, 5, 0, 11, 14, 10, 17, 3, 18]
  ]"

subsection \<open>Switch kinds\<close>

datatype switch_kind = Sixes | TwentiesI | TwentiesII | TwentiesIII

text \<open>The array that belongs to each switch.\<close>

fun grid :: "switch_kind \<Rightarrow> int list list" where
  "grid Sixes = SIXES"
| "grid TwentiesI = TWENTIES_I"
| "grid TwentiesII = TWENTIES_II"
| "grid TwentiesIII = TWENTIES_III"

text \<open>
  Modelled from the spec: the declared contact count of a switch kind, which the source
  does not name (there it is only the length of the rows). The spec fixes it at 6 for
  the sixes and 20 for each of the twenties.
\<close>

fun kind_contact_count :: "switch_kind \<Rightarrow> nat" where
  "kind_contact_count Sixes = 6"
| "kind_contact_count TwentiesI = 20"
| "kind_contact_count TwentiesII = 20"
| "kind_contact_count TwentiesIII = 20"

text \<open>The contact indices \<open>0 .. n - 1\<close> in ascending order.\<close>

definition contacts :: "nat \<Rightarrow> int list" where
  "contacts n = map int [0..<n]"

section \<open>The validated accessor\<close>

text \<open>
  The source holds the four literals and nothing else: no constructor, no query and no
  error type. The definitions of this section are therefore written from the
  specification (section 4.1 and section 7), one per operation it describes.
\<close>

text \<open>Modelled from the spec: the error taxonomy of section 7, absent from the source.\<close>

datatype error = MalformedWiringError | OutOfRangeError

text \<open>
  Modelled from the spec: the wiring table of section 3, absent from the source. The
  position count is derived from the rows and is not stored.
\<close>

record wiring_table =
  contact_count :: nat
  rows :: "int list list"

definition position_count :: "wiring_table \<Rightarrow> nat" where
  "position_count t = length (rows t)"

text \<open>
  Modelled from the spec: the construction-time check of invariants 1 and 2, absent from
  the source. A row passes when it has exactly \<open>n\<close> entries and every contact index of
  \<open>0 .. n - 1\<close> occurs in it exactly once.
\<close>

definition row_ok :: "nat \<Rightarrow> int list \<Rightarrow> bool" where
  "row_ok n r = (length r = n \<and> list_all (\<lambda>v. count_list r v = 1) (contacts n))"

text \<open>
  Modelled from the spec: the constructor of section 4.1, absent from the source. It
  takes the switch kind and the literal grid, rejects the empty grid and any grid with a
  failing row, and otherwise allocates the table.
\<close>

definition construct :: "switch_kind \<Rightarrow> int list list \<Rightarrow> error + wiring_table" where
  "construct k g =
     (if g = [] then Inl MalformedWiringError
      else if list_all (row_ok (kind_contact_count k)) g
        then Inr \<lparr>contact_count = kind_contact_count k, rows = g\<rparr>
        else Inl MalformedWiringError)"

text \<open>
  Modelled from the spec: the lookup-by-kind accessor of section 6, absent from the
  source. It constructs the table of a switch kind from that kind's literal.
\<close>

definition table :: "switch_kind \<Rightarrow> error + wiring_table" where
  "table k = construct k (grid k)"

text \<open>
  Modelled from the spec: the domain of a query, \<open>position\<close> in
  \<open>0 .. position_count - 1\<close> and the contact in \<open>0 .. contact_count - 1\<close>. Both
  arguments are integers of the caller, so they may be negative.
\<close>

definition in_range :: "wiring_table \<Rightarrow> int \<Rightarrow> int \<Rightarrow> bool" where
  "in_range t p c =
     (0 \<le> p \<and> p < int (position_count t) \<and> 0 \<le> c \<and> c < int (contact_count t))"

text \<open>
  Modelled from the spec: the query \<open>map(position, input_contact)\<close> of section 4.1,
  absent from the source: a direct lookup that fails outside the domain.
\<close>

definition map_sw :: "wiring_table \<Rightarrow> int \<Rightarrow> int \<Rightarrow> error + int" where
  "map_sw t p c =
     (if in_range t p c then Inr (rows t ! nat p ! nat c) else Inl OutOfRangeError)"

text \<open>
  Modelled from the spec: the linear search of a row that inverts it on demand (section
  4.1), absent from the source. It yields the first index at which the value occurs, if
  any.
\<close>

fun index_of :: "int list \<Rightarrow> int \<Rightarrow> nat option" where
  "index_of [] v = None"
| "index_of (x # xs) v = (if x = v then Some 0 else map_option Suc (index_of xs v))"

text \<open>
  Modelled from the spec: the query \<open>inverse_map(position, output_contact)\<close> of
  section 4.1, absent from the source, in the variant that inverts the row on demand by
  a linear search. The spec names two errors only, and a malformed table is never
  reported by a query; a value that the row does not hold is reported as out of range.
\<close>

definition inverse_map :: "wiring_table \<Rightarrow> int \<Rightarrow> int \<Rightarrow> error + int" where
  "inverse_map t p c =
     (if in_range t p c
      then (case index_of (rows t ! nat p) c of
              Some i \<Rightarrow> Inr (int i)
            | None \<Rightarrow> Inl OutOfRangeError)
      else Inl OutOfRangeError)"

text \<open>
  Modelled from the spec: the invariants of section 3 in the spec's own words, which the
  source states nowhere. The grid has a row, every row has exactly the declared number of
  entries, and every row holds each contact index once (as a multiset, it is the contact
  range).
\<close>

definition well_formed :: "switch_kind \<Rightarrow> int list list \<Rightarrow> bool" where
  "well_formed k g =
     (g \<noteq> [] \<and>
      list_all (\<lambda>r. length r = kind_contact_count k \<and>
                     mset r = mset (contacts (kind_contact_count k))) g)"

section \<open>Shape of the tables\<close>

lemma SIXES_shape: "length SIXES = 25 \<and> list_all (\<lambda>r. length r = 6) SIXES"
  by (simp add: SIXES_def)

lemma TWENTIES_I_shape: "length TWENTIES_I = 25 \<and> list_all (\<lambda>r. length r = 20) TWENTIES_I"
  by (simp add: TWENTIES_I_def)

lemma TWENTIES_II_shape: "length TWENTIES_II = 25 \<and> list_all (\<lambda>r. length r = 20) TWENTIES_II"
  by (simp add: TWENTIES_II_def)

lemma TWENTIES_III_shape:
  "length TWENTIES_III = 25 \<and> list_all (\<lambda>r. length r = 20) TWENTIES_III"
  by (simp add: TWENTIES_III_def)

lemma grid_shape:
  "length (grid k) = 25 \<and> list_all (\<lambda>r. length r = kind_contact_count k) (grid k)"
  using SIXES_shape TWENTIES_I_shape TWENTIES_II_shape TWENTIES_III_shape
  by (cases k) simp_all

lemma grid_length: "length (grid k) = 25"
  using grid_shape by blast

lemma grid_row_length: "p < length (grid k) \<Longrightarrow> length (grid k ! p) = kind_contact_count k"
  using grid_shape [of k] by (simp add: list_all_length)

section \<open>The literals pass the construction check\<close>

lemma SIXES_rows_ok: "list_all (row_ok 6) SIXES"
  by (simp add: SIXES_def row_ok_def contacts_def upt_conv_Cons)

lemma TWENTIES_I_rows_ok: "list_all (row_ok 20) TWENTIES_I"
  by (simp add: TWENTIES_I_def row_ok_def contacts_def upt_conv_Cons)

lemma TWENTIES_II_rows_ok: "list_all (row_ok 20) TWENTIES_II"
  by (simp add: TWENTIES_II_def row_ok_def contacts_def upt_conv_Cons)

lemma TWENTIES_III_rows_ok: "list_all (row_ok 20) TWENTIES_III"
  by (simp add: TWENTIES_III_def row_ok_def contacts_def upt_conv_Cons)

lemma grid_rows_ok: "list_all (row_ok (kind_contact_count k)) (grid k)"
  using SIXES_rows_ok TWENTIES_I_rows_ok TWENTIES_II_rows_ok TWENTIES_III_rows_ok
  by (cases k) simp_all

lemma grid_nonempty: "grid k \<noteq> []"
  using grid_length [of k] by auto

lemma table_constructed:
  "table k = Inr \<lparr>contact_count = kind_contact_count k, rows = grid k\<rparr>"
  by (simp add: table_def construct_def grid_nonempty grid_rows_ok)

lemma distinct_contacts: "distinct (contacts n)"
  by (simp add: contacts_def distinct_map)

lemma set_contacts: "set (contacts n) = {0..<int n}"
proof -
  have "x \<in> int ` {0..<n}" if "0 \<le> x" "x < int n" for x
  proof -
    from that have "nat x \<in> {0..<n}" and "x = int (nat x)" by simp_all
    then show ?thesis by (rule_tac x = "nat x" in image_eqI)
  qed
  then show ?thesis by (auto simp: contacts_def)
qed

lemma length_contacts: "length (contacts n) = n"
  by (simp add: contacts_def)

lemma count_list_eq_count: "count_list r v = count (mset r) v"
  by (induction r) auto

lemma row_ok_imp_perm:
  assumes "row_ok n r"
  shows "distinct r \<and> set r = set (contacts n)"
proof -
  from assms have len: "length r = n"
    and cnt: "\<forall>v\<in>set (contacts n). count_list r v = 1"
    by (simp_all add: row_ok_def list_all_iff)
  have sub: "set (contacts n) \<subseteq> set r"
  proof
    fix v assume "v \<in> set (contacts n)"
    with cnt have "count_list r v = 1" by blast
    then show "v \<in> set r" by (metis count_list_0_iff zero_neq_one)
  qed
  have "card (set (contacts n)) = n"
    using distinct_card [OF distinct_contacts, of n] by (simp add: length_contacts)
  with sub have "n \<le> card (set r)"
    by (metis card_mono List.finite_set)
  moreover have "card (set r) \<le> n"
    using card_length [of r] len by simp
  ultimately have c: "card (set r) = length r" using len by simp
  then have d: "distinct r" by (simp add: card_distinct)
  have "set (contacts n) = set r"
    using sub c len \<open>card (set (contacts n)) = n\<close>
    by (intro card_subset_eq) simp_all
  with d show ?thesis by simp
qed

lemma row_ok_iff:
  "row_ok n r \<longleftrightarrow> length r = n \<and> mset r = mset (contacts n)"
proof
  assume ok: "row_ok n r"
  then have "distinct r \<and> set r = set (contacts n)" by (rule row_ok_imp_perm)
  then have "mset r = mset (contacts n)"
    using distinct_contacts [of n] set_eq_iff_mset_eq_distinct [of r "contacts n"] by simp
  moreover from ok have "length r = n" by (simp add: row_ok_def)
  ultimately show "length r = n \<and> mset r = mset (contacts n)" by simp
next
  assume a: "length r = n \<and> mset r = mset (contacts n)"
  have "count_list r v = 1" if "v \<in> set (contacts n)" for v
  proof -
    have "count_list r v = count (mset (contacts n)) v"
      using a by (simp add: count_list_eq_count)
    also have "\<dots> = 1"
      using that distinct_contacts [of n] by (simp add: distinct_count_atmost_1)
    finally show ?thesis .
  qed
  with a show "row_ok n r" by (simp add: row_ok_def list_all_iff)
qed

lemma grid_row_perm:
  assumes "p < length (grid k)"
  shows "distinct (grid k ! p) \<and> set (grid k ! p) = set (contacts (kind_contact_count k))"
proof -
  from grid_rows_ok [of k] assms have "row_ok (kind_contact_count k) (grid k ! p)"
    by (simp add: list_all_length)
  then show ?thesis by (rule row_ok_imp_perm)
qed

section \<open>Properties of the accessor\<close>

lemma index_of_Some: "index_of r v = Some i \<Longrightarrow> i < length r \<and> r ! i = v"
proof (induction r arbitrary: i)
  case Nil
  then show ?case by simp
next
  case (Cons x xs)
  show ?case
  proof (cases "x = v")
    case True
    with Cons.prems show ?thesis by simp
  next
    case False
    with Cons.prems obtain j where j: "index_of xs v = Some j" and i: "i = Suc j"
      by auto
    from Cons.IH [OF j] i show ?thesis by simp
  qed
qed

lemma index_of_mem: "v \<in> set r \<Longrightarrow> \<exists>i. index_of r v = Some i"
  by (induction r) auto

lemma index_of_nth: "distinct r \<Longrightarrow> i < length r \<Longrightarrow> index_of r (r ! i) = Some i"
proof (induction r arbitrary: i)
  case Nil
  then show ?case by simp
next
  case (Cons x xs)
  show ?case
  proof (cases i)
    case 0
    then show ?thesis by simp
  next
    case (Suc j)
    with Cons.prems have j: "j < length xs" and d: "distinct xs" and nx: "x \<notin> set xs"
      by simp_all
    from j nx have "xs ! j \<noteq> x" by (metis nth_mem)
    with Cons.IH [OF d j] Suc show ?thesis by auto
  qed
qed

lemma construct_Inr:
  assumes "construct k g = Inr t"
  shows "contact_count t = kind_contact_count k \<and> rows t = g \<and> g \<noteq> []
         \<and> list_all (row_ok (kind_contact_count k)) g"
  using assms by (auto simp: construct_def split: if_splits)

lemma constructed_row:
  assumes c: "construct k g = Inr t" and r: "in_range t p c"
  shows "nat p < length (rows t) \<and> nat c < length (rows t ! nat p)
         \<and> length (rows t ! nat p) = contact_count t
         \<and> distinct (rows t ! nat p)
         \<and> set (rows t ! nat p) = {0..<int (contact_count t)}"
proof -
  from construct_Inr [OF c] have cc: "contact_count t = kind_contact_count k"
    and all: "list_all (row_ok (contact_count t)) (rows t)" by simp_all
  from r have p: "nat p < length (rows t)" and c': "nat c < contact_count t"
    by (auto simp: in_range_def position_count_def)
  from all p have ok: "row_ok (contact_count t) (rows t ! nat p)"
    by (simp add: list_all_length)
  then have len: "length (rows t ! nat p) = contact_count t"
    by (simp add: row_ok_def)
  from row_ok_imp_perm [OF ok] p c' len show ?thesis
    by (simp add: set_contacts)
qed

lemma constructed_map_then_inverse:
  assumes c: "construct k g = Inr t" and r: "in_range t p c"
  shows "\<exists>y. map_sw t p c = Inr y \<and> inverse_map t p y = Inr c"
proof -
  let ?row = "rows t ! nat p"
  let ?y = "?row ! nat c"
  from constructed_row [OF c r] have cl: "nat c < length ?row"
    and d: "distinct ?row" and s: "set ?row = {0..<int (contact_count t)}" by simp_all
  have m: "map_sw t p c = Inr ?y" using r by (simp add: map_sw_def)
  from cl have "?y \<in> set ?row" by (rule nth_mem)
  with s r have ry: "in_range t p ?y" by (simp add: in_range_def)
  from index_of_nth [OF d cl] have "index_of ?row ?y = Some (nat c)" .
  with ry r have "inverse_map t p ?y = Inr c"
    by (simp add: inverse_map_def in_range_def)
  with m show ?thesis by blast
qed

lemma constructed_inverse_then_map:
  assumes c: "construct k g = Inr t" and r: "in_range t p c"
  shows "\<exists>x. inverse_map t p c = Inr x \<and> map_sw t p x = Inr c"
proof -
  let ?row = "rows t ! nat p"
  from constructed_row [OF c r] have len: "length ?row = contact_count t"
    and s: "set ?row = {0..<int (contact_count t)}" by simp_all
  from r s have "c \<in> set ?row" by (simp add: in_range_def)
  then obtain i where i: "index_of ?row c = Some i" using index_of_mem by blast
  from index_of_Some [OF i] have il: "i < length ?row" and iv: "?row ! i = c" by simp_all
  from i r have inv: "inverse_map t p c = Inr (int i)" by (simp add: inverse_map_def)
  from il len r have ri: "in_range t p (int i)" by (simp add: in_range_def)
  with iv have "map_sw t p (int i) = Inr c" by (simp add: map_sw_def)
  with inv show ?thesis by blast
qed

lemma builtin_in_range:
  assumes "0 \<le> p" "p < int (length (grid k))" "0 \<le> c" "c < int (kind_contact_count k)"
  shows "in_range \<lparr>contact_count = kind_contact_count k, rows = grid k\<rparr> p c"
  using assms by (simp add: in_range_def position_count_def)

lemma out_of_range_queries:
  assumes "\<not> in_range t p c"
  shows "map_sw t p c = Inl OutOfRangeError \<and> inverse_map t p c = Inl OutOfRangeError"
  using assms by (simp add: map_sw_def inverse_map_def)

lemma construct_cases:
  "construct k g = Inl MalformedWiringError
   \<or> construct k g = Inr \<lparr>contact_count = kind_contact_count k, rows = g\<rparr>"
  by (simp add: construct_def)

lemma construct_ok_iff:
  "construct k g = Inr \<lparr>contact_count = kind_contact_count k, rows = g\<rparr>
     \<longleftrightarrow> well_formed k g"
proof -
  have "list_all (row_ok n) g
          = list_all (\<lambda>r. length r = n \<and> mset r = mset (contacts n)) g" for n
    by (simp add: list_all_iff row_ok_iff)
  then show ?thesis by (simp add: construct_def well_formed_def)
qed

lemma query_never_malformed:
  "map_sw t p c \<noteq> Inl MalformedWiringError \<and> inverse_map t p c \<noteq> Inl MalformedWiringError"
  by (simp add: map_sw_def inverse_map_def split: option.split)

lemma nth_contacts: "c < n \<Longrightarrow> contacts n ! c = int c"
  by (simp add: contacts_def)

lemma identity_rows_SIXES:
  "filter (\<lambda>p. SIXES ! p = contacts 6) [0..<25] = []"
  by code_simp

lemma identity_rows_TWENTIES_I:
  "filter (\<lambda>p. TWENTIES_I ! p = contacts 20) [0..<25] = [19]"
  by code_simp

lemma identity_rows_TWENTIES_II:
  "filter (\<lambda>p. TWENTIES_II ! p = contacts 20) [0..<25] = []"
  by code_simp

lemma identity_rows_TWENTIES_III:
  "filter (\<lambda>p. TWENTIES_III ! p = contacts 20) [0..<25] = []"
  by code_simp

lemma identity_rows_grid:
  "filter (\<lambda>p. grid k ! p = contacts (kind_contact_count k)) [0..<25]
     = (if k = TwentiesI then [19] else [])"
  using identity_rows_SIXES identity_rows_TWENTIES_I identity_rows_TWENTIES_II
    identity_rows_TWENTIES_III
  by (cases k) simp_all

lemma identity_row_iff:
  assumes "p < length (grid k)"
  shows "grid k ! p = contacts (kind_contact_count k) \<longleftrightarrow> k = TwentiesI \<and> p = 19"
proof -
  from assms have p: "p < 25" by (simp add: grid_length)
  have "p \<in> set (filter (\<lambda>p. grid k ! p = contacts (kind_contact_count k)) [0..<25])
          \<longleftrightarrow> grid k ! p = contacts (kind_contact_count k)"
    using p by simp
  then show ?thesis unfolding identity_rows_grid by (cases "k = TwentiesI") auto
qed

section \<open>The claims\<close>

text \<open>
  For a valid position \<open>p\<close> and a valid contact \<open>c\<close> the entry \<open>grid k ! p ! c\<close> is
  what the source's lookup \<^verbatim>\<open>TABLE[p][c]\<close> reads. The claims about the literals
  alone are stated on these entries; the claims about the queries and the constructor
  are stated on the accessor of the previous sections.
\<close>

text \<open>
  Claim C1. For every switch kind and every wiper position \<open>p\<close> below the number of rows,
  the row at \<open>p\<close> is a permutation of the contact range: the multiset of the entries over
  all valid contacts is the multiset of \<open>0 .. contact_count - 1\<close>, each value once, so
  the row has no duplicate and misses no value.
\<close>

theorem rows_are_permutations:
  assumes "p < length (grid k)"
  shows "mset (map (\<lambda>c. grid k ! p ! c) [0..<kind_contact_count k])
           = mset (contacts (kind_contact_count k))
         \<and> distinct (grid k ! p)
         \<and> set (grid k ! p) = {0..<int (kind_contact_count k)}"
proof -
  have len: "length (grid k ! p) = kind_contact_count k"
    using assms by (rule grid_row_length)
  have perm: "distinct (grid k ! p) \<and> set (grid k ! p) = set (contacts (kind_contact_count k))"
    using assms by (rule grid_row_perm)
  have "map (\<lambda>c. grid k ! p ! c) [0..<kind_contact_count k] = grid k ! p"
    using len map_nth [of "grid k ! p"] by simp
  moreover have "mset (grid k ! p) = mset (contacts (kind_contact_count k))"
    using perm distinct_contacts [of "kind_contact_count k"]
      set_eq_iff_mset_eq_distinct [of "grid k ! p" "contacts (kind_contact_count k)"]
    by simp
  ultimately show ?thesis using perm by (simp add: set_contacts)
qed

theorem rows_are_permutations_witness:
  "mset (map (\<lambda>c. grid TwentiesII ! 3 ! c) [0..<kind_contact_count TwentiesII])
           = mset (contacts (kind_contact_count TwentiesII))
         \<and> distinct (grid TwentiesII ! 3)
         \<and> set (grid TwentiesII ! 3) = {0..<int (kind_contact_count TwentiesII)}"
proof -
  have "3 < length (grid TwentiesII)"
    unfolding grid_length by simp
  then show ?thesis by (rule rows_are_permutations)
qed

text \<open>
  Claim C2. Every table has exactly 25 rows, and every row has as many entries as the
  switch has contacts: 6 for the sixes, 20 for each of the three twenties.
\<close>

theorem table_shape:
  "length (grid k) = 25
   \<and> (\<forall>p < length (grid k). length (grid k ! p) = kind_contact_count k)
   \<and> kind_contact_count Sixes = 6
   \<and> kind_contact_count TwentiesI = 20
   \<and> kind_contact_count TwentiesII = 20
   \<and> kind_contact_count TwentiesIII = 20"
  by (simp add: grid_length grid_row_length)

theorem table_shape_witness:
  "length (grid Sixes) = 25 \<and> length (grid Sixes ! 24) = 6
   \<and> length (grid TwentiesIII) = 25 \<and> length (grid TwentiesIII ! 0) = 20"
  using table_shape [of Sixes] table_shape [of TwentiesIII] by simp

text \<open>
  Claim C3. For every switch kind the table is constructed, and for every valid position
  \<open>p\<close> and valid input contact \<open>c\<close> the query \<open>map(p, c)\<close> returns the entry stored
  at index \<open>c\<close> of row \<open>p\<close> of that switch's literal.
\<close>

theorem map_is_direct_lookup:
  assumes "0 \<le> p" "p < int (length (grid k))" "0 \<le> c" "c < int (kind_contact_count k)"
  shows "\<exists>t. table k = Inr t \<and> position_count t = length (grid k)
              \<and> contact_count t = kind_contact_count k
              \<and> map_sw t p c = Inr (grid k ! nat p ! nat c)"
proof -
  let ?t = "\<lparr>contact_count = kind_contact_count k, rows = grid k\<rparr>"
  have "table k = Inr ?t" by (rule table_constructed)
  moreover have "map_sw ?t p c = Inr (grid k ! nat p ! nat c)"
    using builtin_in_range [OF assms] by (simp add: map_sw_def)
  ultimately show ?thesis by (simp add: position_count_def)
qed

theorem map_is_direct_lookup_witness:
  "\<exists>t. table TwentiesIII = Inr t \<and> position_count t = length (grid TwentiesIII)
       \<and> contact_count t = kind_contact_count TwentiesIII
       \<and> map_sw t 24 19 = Inr (grid TwentiesIII ! nat 24 ! nat 19)"
proof -
  have "(24::int) < int (length (grid TwentiesIII))" unfolding grid_length by simp
  moreover have "(19::int) < int (kind_contact_count TwentiesIII)" by simp
  ultimately show ?thesis
    using map_is_direct_lookup [of 24 TwentiesIII 19] by simp
qed

text \<open>
  Claim C4. For every switch kind, valid position \<open>p\<close> and valid contact \<open>c\<close>, the forward
  and the inverse query both succeed and undo each other:
  \<open>inverse_map(p, map(p, c)) = c\<close> and \<open>map(p, inverse_map(p, c)) = c\<close>.
\<close>

theorem forward_and_inverse_agree:
  assumes "0 \<le> p" "p < int (length (grid k))" "0 \<le> c" "c < int (kind_contact_count k)"
  shows "\<exists>t. table k = Inr t
              \<and> (\<exists>y. map_sw t p c = Inr y \<and> inverse_map t p y = Inr c)
              \<and> (\<exists>x. inverse_map t p c = Inr x \<and> map_sw t p x = Inr c)"
proof -
  let ?t = "\<lparr>contact_count = kind_contact_count k, rows = grid k\<rparr>"
  have t: "construct k (grid k) = Inr ?t"
    using table_constructed [of k] by (simp add: table_def)
  have r: "in_range ?t p c" using assms by (rule builtin_in_range)
  from constructed_map_then_inverse [OF t r] constructed_inverse_then_map [OF t r]
    table_constructed [of k]
  show ?thesis by blast
qed

theorem forward_and_inverse_agree_witness:
  "\<exists>t. table TwentiesI = Inr t
       \<and> (\<exists>y. map_sw t 3 7 = Inr y \<and> inverse_map t 3 y = Inr 7)
       \<and> (\<exists>x. inverse_map t 3 7 = Inr x \<and> map_sw t 3 x = Inr 7)"
proof -
  have "(3::int) < int (length (grid TwentiesI))" unfolding grid_length by simp
  moreover have "(7::int) < int (kind_contact_count TwentiesI)" by simp
  ultimately show ?thesis
    using forward_and_inverse_agree [of 3 TwentiesI 7] by simp
qed

text \<open>
  Claim C5. For every switch kind, a query with the position equal to the position count,
  or the contact equal to the contact count, or a negative position or contact, fails with
  \<open>OutOfRangeError\<close>, for \<open>map\<close> and for \<open>inverse_map\<close>; being an error value, the result
  is never a wrapped or truncated entry.
\<close>

theorem boundary_queries_fail:
  "\<exists>t. table k = Inr t
       \<and> (p = int (position_count t) \<or> c = int (contact_count t) \<or> p < 0 \<or> c < 0
            \<longrightarrow> map_sw t p c = Inl OutOfRangeError
                \<and> inverse_map t p c = Inl OutOfRangeError)"
proof -
  let ?t = "\<lparr>contact_count = kind_contact_count k, rows = grid k\<rparr>"
  have "map_sw ?t p c = Inl OutOfRangeError \<and> inverse_map ?t p c = Inl OutOfRangeError"
    if "p = int (position_count ?t) \<or> c = int (contact_count ?t) \<or> p < 0 \<or> c < 0"
  proof (rule out_of_range_queries)
    from that show "\<not> in_range ?t p c" by (auto simp: in_range_def)
  qed
  with table_constructed [of k] show ?thesis by blast
qed

theorem boundary_queries_fail_witness:
  "map_sw \<lparr>contact_count = 6, rows = SIXES\<rparr> 25 0 = Inl OutOfRangeError
   \<and> inverse_map \<lparr>contact_count = 6, rows = SIXES\<rparr> 25 0 = Inl OutOfRangeError
   \<and> map_sw \<lparr>contact_count = 6, rows = SIXES\<rparr> 0 6 = Inl OutOfRangeError
   \<and> inverse_map \<lparr>contact_count = 6, rows = SIXES\<rparr> 0 6 = Inl OutOfRangeError
   \<and> map_sw \<lparr>contact_count = 6, rows = SIXES\<rparr> (- 1) 0 = Inl OutOfRangeError
   \<and> inverse_map \<lparr>contact_count = 6, rows = SIXES\<rparr> 0 (- 1) = Inl OutOfRangeError"
proof -
  let ?t = "\<lparr>contact_count = 6, rows = SIXES\<rparr>"
  have t: "table Sixes = Inr ?t" using table_constructed [of Sixes] by simp
  have pc: "position_count ?t = 25" "contact_count ?t = 6"
    using grid_length [of Sixes] by (simp_all add: position_count_def)
  have a: "map_sw ?t 25 0 = Inl OutOfRangeError \<and> inverse_map ?t 25 0 = Inl OutOfRangeError"
    using boundary_queries_fail [of Sixes 25 0] t pc by auto
  have b: "map_sw ?t 0 6 = Inl OutOfRangeError \<and> inverse_map ?t 0 6 = Inl OutOfRangeError"
    using boundary_queries_fail [of Sixes 0 6] t pc by auto
  have c: "map_sw ?t (- 1) 0 = Inl OutOfRangeError"
    using boundary_queries_fail [of Sixes "- 1" 0] t by auto
  have d: "inverse_map ?t 0 (- 1) = Inl OutOfRangeError"
    using boundary_queries_fail [of Sixes 0 "- 1"] t by auto
  from a b c d show ?thesis by simp
qed

text \<open>
  Claim C6. Constructing a table from a grid that violates the shape or permutation
  invariants (the empty grid, a row of the wrong length, a row with a duplicate or a
  missing value) fails with \<open>MalformedWiringError\<close> and yields no table at all; a grid
  that satisfies them yields the table; and no query on a constructed table reports
  \<open>MalformedWiringError\<close>.
\<close>

theorem malformed_grid_rejected:
  "(\<not> well_formed k g \<longrightarrow>
      construct k g = Inl MalformedWiringError \<and> (\<forall>t. construct k g \<noteq> Inr t))
   \<and> (well_formed k g \<longrightarrow>
      construct k g = Inr \<lparr>contact_count = kind_contact_count k, rows = g\<rparr>)
   \<and> (construct k g = Inr t \<longrightarrow>
      well_formed k g
      \<and> map_sw t p c \<noteq> Inl MalformedWiringError
      \<and> inverse_map t p c \<noteq> Inl MalformedWiringError)"
proof -
  have ok: "construct k g = Inr \<lparr>contact_count = kind_contact_count k, rows = g\<rparr>"
    if "well_formed k g"
    using that by (simp add: construct_ok_iff)
  have bad: "construct k g = Inl MalformedWiringError" if "\<not> well_formed k g"
    using that construct_cases [of k g] by (auto simp: construct_ok_iff)
  have wf: "well_formed k g" if "construct k g = Inr t"
  proof (rule ccontr)
    assume "\<not> well_formed k g"
    then have "construct k g = Inl MalformedWiringError" by (rule bad)
    with that show False by simp
  qed
  show ?thesis
  proof (intro conjI impI allI)
    assume "\<not> well_formed k g"
    then show "construct k g = Inl MalformedWiringError" by (rule bad)
  next
    fix t'
    assume "\<not> well_formed k g"
    then have "construct k g = Inl MalformedWiringError" by (rule bad)
    then show "construct k g \<noteq> Inr t'" by simp
  next
    assume "well_formed k g"
    then show "construct k g = Inr \<lparr>contact_count = kind_contact_count k, rows = g\<rparr>"
      by (rule ok)
  next
    assume "construct k g = Inr t"
    then show "well_formed k g" by (rule wf)
  next
    show "map_sw t p c \<noteq> Inl MalformedWiringError"
      using query_never_malformed [of t p c] by (rule conjunct1)
  next
    show "inverse_map t p c \<noteq> Inl MalformedWiringError"
      using query_never_malformed [of t p c] by (rule conjunct2)
  qed
qed

theorem malformed_grid_rejected_witness:
  "construct Sixes [[1, 0, 2, 4, 3, 3]] = Inl MalformedWiringError
   \<and> construct Sixes [[1, 0, 2, 4, 3]] = Inl MalformedWiringError
   \<and> construct Sixes [[1, 0, 2, 4, 3, 5, 6]] = Inl MalformedWiringError
   \<and> construct Sixes [] = Inl MalformedWiringError
   \<and> construct Sixes [[1, 0, 2, 4, 3, 5]]
       = Inr \<lparr>contact_count = 6, rows = [[1, 0, 2, 4, 3, 5]]\<rparr>
   \<and> map_sw \<lparr>contact_count = 6, rows = [[1, 0, 2, 4, 3, 5]]\<rparr> 1 0
       \<noteq> Inl MalformedWiringError"
proof -
  have "\<not> row_ok 6 [1, 0, 2, 4, 3, 3]"
    by (simp add: row_ok_def contacts_def upt_conv_Cons)
  then have n1: "\<not> well_formed Sixes [[1, 0, 2, 4, 3, 3]]"
    by (simp add: well_formed_def row_ok_iff)
  have n2: "\<not> well_formed Sixes [[1, 0, 2, 4, 3]]"
    by (simp add: well_formed_def)
  have n3: "\<not> well_formed Sixes [[1, 0, 2, 4, 3, 5, 6]]"
    by (simp add: well_formed_def)
  have n4: "\<not> well_formed Sixes []"
    by (simp add: well_formed_def)
  have "row_ok 6 [1, 0, 2, 4, 3, 5]"
    by (simp add: row_ok_def contacts_def upt_conv_Cons)
  then have y: "well_formed Sixes [[1, 0, 2, 4, 3, 5]]"
    by (simp add: well_formed_def row_ok_iff)
  let ?t = "\<lparr>contact_count = 6, rows = [[1, 0, 2, 4, 3, 5]]\<rparr>"
  note good = malformed_grid_rejected [of Sixes "[[1, 0, 2, 4, 3, 5]]" ?t 1 0]
  have "construct Sixes [[1, 0, 2, 4, 3, 5]]
      = Inr \<lparr>contact_count = kind_contact_count Sixes, rows = [[1, 0, 2, 4, 3, 5]]\<rparr>"
    by (rule good [THEN conjunct2, THEN conjunct1, THEN mp, OF y])
  then have c: "construct Sixes [[1, 0, 2, 4, 3, 5]] = Inr ?t" by simp
  have q: "map_sw ?t 1 0 \<noteq> Inl MalformedWiringError"
    by (rule good [THEN conjunct2, THEN conjunct2, THEN mp, OF c, THEN conjunct2,
          THEN conjunct1])
  have r1: "construct Sixes [[1, 0, 2, 4, 3, 3]] = Inl MalformedWiringError"
    by (rule malformed_grid_rejected [of Sixes "[[1, 0, 2, 4, 3, 3]]", THEN conjunct1,
          THEN mp, OF n1, THEN conjunct1])
  have r2: "construct Sixes [[1, 0, 2, 4, 3]] = Inl MalformedWiringError"
    by (rule malformed_grid_rejected [of Sixes "[[1, 0, 2, 4, 3]]", THEN conjunct1,
          THEN mp, OF n2, THEN conjunct1])
  have r3: "construct Sixes [[1, 0, 2, 4, 3, 5, 6]] = Inl MalformedWiringError"
    by (rule malformed_grid_rejected [of Sixes "[[1, 0, 2, 4, 3, 5, 6]]", THEN conjunct1,
          THEN mp, OF n3, THEN conjunct1])
  have r4: "construct Sixes [] = Inl MalformedWiringError"
    by (rule malformed_grid_rejected [of Sixes "[]", THEN conjunct1,
          THEN mp, OF n4, THEN conjunct1])
  from r1 r2 r3 r4 c q show ?thesis by (intro conjI)
qed

text \<open>
  Claim C7. Row 0 of the sixes is \<open>[1, 0, 2, 4, 3, 5]\<close>; on the sixes table
  \<open>map(0, 0) = 1\<close>, \<open>map(0, 1) = 0\<close>, \<open>map(0, 5) = 5\<close>, \<open>inverse_map(0, 1) = 0\<close> and
  \<open>inverse_map(0, 5) = 5\<close>.
\<close>

theorem sixes_position_0_scenario:
  "SIXES ! 0 = [1, 0, 2, 4, 3, 5]
   \<and> (\<exists>t. table Sixes = Inr t
        \<and> map_sw t 0 0 = Inr 1 \<and> map_sw t 0 1 = Inr 0 \<and> map_sw t 0 5 = Inr 5
        \<and> inverse_map t 0 1 = Inr 0 \<and> inverse_map t 0 5 = Inr 5)"
proof -
  let ?t = "\<lparr>contact_count = 6, rows = SIXES\<rparr>"
  have row: "SIXES ! 0 = [1, 0, 2, 4, 3, 5]" by (simp add: SIXES_def)
  have t: "table Sixes = Inr ?t" using table_constructed [of Sixes] by simp
  have r: "in_range ?t 0 0" "in_range ?t 0 1" "in_range ?t 0 5"
    using grid_length [of Sixes] by (simp_all add: in_range_def position_count_def)
  have m: "map_sw ?t 0 0 = Inr 1" "map_sw ?t 0 1 = Inr 0" "map_sw ?t 0 5 = Inr 5"
    using r row by (simp_all add: map_sw_def)
  have i: "inverse_map ?t 0 1 = Inr 0" "inverse_map ?t 0 5 = Inr 5"
    using r row by (simp_all add: inverse_map_def)
  from row t m i show ?thesis by blast
qed

text \<open>
  Claim C8. Row 19 of the first twenties switch is the identity on \<open>0 .. 19\<close>: the entry
  for every contact \<open>c\<close> of that range is \<open>c\<close> itself.
\<close>

theorem twenties_I_position_19_identity:
  "TWENTIES_I ! 19 = [0, 1, 2, 3, 4, 5, 6, 7, 8, 9, 10, 11, 12, 13, 14, 15, 16, 17, 18, 19]
   \<and> (\<forall>c < 20. TWENTIES_I ! 19 ! c = int c)"
proof -
  have lit: "TWENTIES_I ! 19
      = [0, 1, 2, 3, 4, 5, 6, 7, 8, 9, 10, 11, 12, 13, 14, 15, 16, 17, 18, 19]"
    by (simp add: TWENTIES_I_def)
  have "contacts 20
      = [0, 1, 2, 3, 4, 5, 6, 7, 8, 9, 10, 11, 12, 13, 14, 15, 16, 17, 18, 19]"
    by (simp add: contacts_def upt_conv_Cons)
  with lit have "TWENTIES_I ! 19 = contacts 20" by simp
  then have "\<forall>c < 20. TWENTIES_I ! 19 ! c = int c" by (simp add: nth_contacts)
  with lit show ?thesis by (rule conjI)
qed

theorem twenties_I_position_19_identity_witness:
  "TWENTIES_I ! 19 ! 7 = 7 \<and> TWENTIES_I ! 19 ! 19 = 19"
  using twenties_I_position_19_identity by simp

text \<open>
  Claim C9. In the sixes table the rows of positions 4 and 7 are the same row
  \<open>[2, 5, 0, 3, 4, 1]\<close>, so they agree on every contact, and the rows of the table are
  not pairwise distinct.
\<close>

theorem sixes_rows_4_and_7_coincide:
  "SIXES ! 4 = [2, 5, 0, 3, 4, 1]
   \<and> SIXES ! 7 = [2, 5, 0, 3, 4, 1]
   \<and> (\<forall>c < 6. SIXES ! 4 ! c = SIXES ! 7 ! c)
   \<and> \<not> distinct SIXES"
  by (simp add: SIXES_def)

theorem sixes_rows_4_and_7_coincide_witness:
  "SIXES ! 4 ! 5 = SIXES ! 7 ! 5 \<and> SIXES ! 4 ! 5 = 1"
  using sixes_rows_4_and_7_coincide by simp

text \<open>
  Claim C10. Over the four tables the identity row occurs at exactly one place, position
  19 of the first twenties switch: at every other pair of a switch kind and a position
  some contact \<open>c\<close> has an entry different from \<open>c\<close>.
\<close>

theorem identity_row_only_at_twenties_I_19:
  "(\<forall>c < 20. grid TwentiesI ! 19 ! c = int c)
   \<and> (\<forall>k p. p < length (grid k) \<and> (k, p) \<noteq> (TwentiesI, 19)
         \<longrightarrow> (\<exists>c < kind_contact_count k. grid k ! p ! c \<noteq> int c))"
proof (intro conjI allI impI)
  fix c :: nat
  assume c: "c < 20"
  have "19 < length (grid TwentiesI)" unfolding grid_length by simp
  then have "grid TwentiesI ! 19 = contacts (kind_contact_count TwentiesI)"
    using identity_row_iff [of 19 TwentiesI] by blast
  then show "grid TwentiesI ! 19 ! c = int c" using c by (simp add: nth_contacts)
next
  fix k p
  assume a: "p < length (grid k) \<and> (k, p) \<noteq> (TwentiesI, 19)"
  let ?n = "kind_contact_count k"
  from a have p: "p < length (grid k)" by simp
  from a have "\<not> (k = TwentiesI \<and> p = 19)" by simp
  with identity_row_iff [OF p] have ne: "grid k ! p \<noteq> contacts ?n" by simp
  have len: "length (grid k ! p) = ?n" using p by (rule grid_row_length)
  from ne len obtain c where c: "c < ?n" and d: "grid k ! p ! c \<noteq> contacts ?n ! c"
    by (auto simp: list_eq_iff_nth_eq length_contacts)
  from c d have "grid k ! p ! c \<noteq> int c" by (simp add: nth_contacts)
  with c show "\<exists>c < ?n. grid k ! p ! c \<noteq> int c" by blast
qed

theorem identity_row_only_at_twenties_I_19_witness:
  "(\<exists>c < kind_contact_count Sixes. grid Sixes ! 18 ! c \<noteq> int c)
   \<and> (\<exists>c < kind_contact_count TwentiesI. grid TwentiesI ! 18 ! c \<noteq> int c)
   \<and> grid TwentiesI ! 19 ! 5 = 5"
proof -
  have s: "18 < length (grid Sixes) \<and> (Sixes, 18::nat) \<noteq> (TwentiesI, 19)"
    unfolding grid_length by simp
  have t: "18 < length (grid TwentiesI) \<and> (TwentiesI, 18::nat) \<noteq> (TwentiesI, 19)"
    unfolding grid_length by simp
  note whole = identity_row_only_at_twenties_I_19
  from whole have all: "\<forall>k p. p < length (grid k) \<and> (k, p) \<noteq> (TwentiesI, 19)
         \<longrightarrow> (\<exists>c < kind_contact_count k. grid k ! p ! c \<noteq> int c)" by (rule conjunct2)
  from all s have a: "\<exists>c < kind_contact_count Sixes. grid Sixes ! 18 ! c \<noteq> int c"
    by blast
  from all t have b: "\<exists>c < kind_contact_count TwentiesI. grid TwentiesI ! 18 ! c \<noteq> int c"
    by blast
  from whole have "\<forall>c < 20. grid TwentiesI ! 19 ! c = int c" by (rule conjunct1)
  then have c: "grid TwentiesI ! 19 ! 5 = 5" by simp
  from a b c show ?thesis by (intro conjI)
qed

end
